theory Spec2Isabelle
  imports Main
begin

section \<open>The ambient state of the process\<close>

text \<open>
  The file \<^verbatim>\<open>mlir-auto-init.cpp\<close> defines one object with static storage duration,
  \<^verbatim>\<open>static bool auto_init\<close>, whose dynamic initializer is an immediately invoked closure:

  \<^verbatim>\<open>
  static bool auto_init = []() {
    registerAllDialects();
    registerAllPasses();

    return true;
  }();
  \<close>

  The two functions it calls are declared in headers of the framework and are not part of
  the file.  They act on process-wide registries.  The state they can see is a record with
  the dialect registry, the pass registry and everything else of the process (\<open>other\<close>);
  the flag \<open>auto_init\<close> has internal linkage, so it is not part of that record.
\<close>

type_synonym dialect_id = string
type_synonym pass_id = string
type_synonym factory = nat

record 'o world =
  dialect_registry :: "dialect_id \<rightharpoonup> factory"
  pass_registry :: "pass_id \<rightharpoonup> factory"
  other :: 'o

text \<open>
  Values that a call site can pass as arguments.
\<close>

datatype cvalue = BoolV bool | IntV int

text \<open>
  The linked framework: the two entry points the file calls by name.  What an entry point
  does is decided by the framework from the argument values of the call and the ambient
  state: it either returns, having changed the ambient state, or does not return
  (\<open>None\<close>: the framework aborts the process).  Its result type is \<^verbatim>\<open>void\<close>.
\<close>

record 'o framework =
  registerAllDialects :: "cvalue list \<Rightarrow> 'o world \<Rightarrow> 'o world option"
  registerAllPasses :: "cvalue list \<Rightarrow> 'o world \<Rightarrow> 'o world option"

section \<open>Observable events\<close>

text \<open>
  A history of what has been executed: calls that the file makes to an entry point (with
  the arguments supplied at the call site), accesses to the flag, and steps of ordinary
  program code.
\<close>

datatype entry_point = RegisterAllDialects | RegisterAllPasses

datatype event = Call entry_point "cvalue list" | WriteFlag bool | ReadFlag | UserCode

datatype ('a, 'o) outcome = Returned 'a "event list" "'o world" | Aborted "event list"

text \<open>
  A call expression names the function it calls: the name selects the entry point of the
  linked framework, and the argument values of the call are what that entry point receives.
\<close>

fun entry :: "'o framework \<Rightarrow> entry_point \<Rightarrow> cvalue list \<Rightarrow> 'o world \<Rightarrow> 'o world option" where
  "entry fw RegisterAllDialects = registerAllDialects fw"
| "entry fw RegisterAllPasses = registerAllPasses fw"

definition call_entry ::
  "'o framework \<Rightarrow> entry_point \<Rightarrow> cvalue list \<Rightarrow> event list \<Rightarrow> 'o world \<Rightarrow> (unit, 'o) outcome" where
  "call_entry fw e args tr w =
     (case entry fw e args w of
        None \<Rightarrow> Aborted (tr @ [Call e args])
      | Some w' \<Rightarrow> Returned () (tr @ [Call e args]) w')"

fun events_of :: "('a, 'o) outcome \<Rightarrow> event list" where
  "events_of (Returned v tr w) = tr"
| "events_of (Aborted tr) = tr"

section \<open>The initializer\<close>

text \<open>
  The closure: \<^verbatim>\<open>registerAllDialects()\<close>, then \<^verbatim>\<open>registerAllPasses()\<close> on the
  state the first call left, each with an empty argument list and with no result to
  inspect, then \<^verbatim>\<open>return true\<close>.  A call that does not return ends the closure there.
\<close>

definition auto_init_lambda :: "'o framework \<Rightarrow> event list \<Rightarrow> 'o world \<Rightarrow> (bool, 'o) outcome" where
  "auto_init_lambda fw tr w =
     (case call_entry fw RegisterAllDialects [] tr w of
        Aborted tr1 \<Rightarrow> Aborted tr1
      | Returned u1 tr1 w1 \<Rightarrow>
          (case call_entry fw RegisterAllPasses [] tr1 w1 of
             Aborted tr2 \<Rightarrow> Aborted tr2
           | Returned u2 tr2 w2 \<Rightarrow> Returned True tr2 w2))"

text \<open>
  The state of a process that links the file once.  \<open>pending_init\<close> is the start-up
  runtime's bookkeeping: the dynamic initializer of the file has not run yet.  The flag is
  zero-initialized, so it is \<open>False\<close> until its initializer stores the closure's result.
\<close>

record 'o process =
  pending_init :: bool
  auto_init :: bool
  trace :: "event list"
  globals :: "'o world"

datatype 'o startup = Initialized "'o process" | Terminated "event list"

definition static_init :: "'o framework \<Rightarrow> 'o process \<Rightarrow> 'o startup" where
  "static_init fw p =
     (case auto_init_lambda fw (trace p) (globals p) of
        Aborted tr \<Rightarrow> Terminated tr
      | Returned v tr w \<Rightarrow>
          Initialized (p\<lparr>auto_init := v, trace := tr @ [WriteFlag v], globals := w\<rparr>))"


definition process_start :: "'o world \<Rightarrow> 'o process" where
  "process_start w = \<lparr>pending_init = True, auto_init = False, trace = [], globals = w\<rparr>"

section \<open>The life of a process\<close>

text \<open>
  Start-up runs the file's initializer once; only then does ordinary program code run.
  Ordinary code may change the ambient state in any way, but it cannot name the flag
  (internal linkage) and cannot invoke the closure (it has no name).
\<close>

datatype reg_state = Unregistered | Registered

definition reg_state_of :: "'o process \<Rightarrow> reg_state" where
  "reg_state_of p = (if pending_init p then Unregistered else Registered)"

inductive step :: "'o framework \<Rightarrow> 'o process \<Rightarrow> 'o process \<Rightarrow> bool" for fw :: "'o framework" where
  startup: "pending_init p \<Longrightarrow> static_init fw p = Initialized p' \<Longrightarrow>
            step fw p (p'\<lparr>pending_init := False\<rparr>)"
| user: "\<not> pending_init p \<Longrightarrow>
         step fw p (p\<lparr>trace := trace p @ [UserCode], globals := u (globals p)\<rparr>)"

text \<open>
  An execution from \<open>p\<close>: the list of the states that follow it, each one step after the
  one before.
\<close>

fun run_from :: "'o framework \<Rightarrow> 'o process \<Rightarrow> 'o process list \<Rightarrow> bool" where
  "run_from fw p [] = True"
| "run_from fw p (q # qs) = (step fw p q \<and> run_from fw q qs)"

fun is_call_to :: "entry_point \<Rightarrow> event \<Rightarrow> bool" where
  "is_call_to e (Call e' args) = (e' = e)"
| "is_call_to e (WriteFlag v) = False"
| "is_call_to e ReadFlag = False"
| "is_call_to e UserCode = False"

definition calls_to :: "entry_point \<Rightarrow> event list \<Rightarrow> nat" where
  "calls_to e tr = length (filter (is_call_to e) tr)"

fun is_flag_access :: "event \<Rightarrow> bool" where
  "is_flag_access (WriteFlag v) = True"
| "is_flag_access ReadFlag = True"
| "is_flag_access (Call e args) = False"
| "is_flag_access UserCode = False"

definition flag_accesses :: "event list \<Rightarrow> event list" where
  "flag_accesses tr = filter is_flag_access tr"

fun call_args :: "event \<Rightarrow> cvalue list option" where
  "call_args (Call e args) = Some args"
| "call_args (WriteFlag v) = None"
| "call_args ReadFlag = None"
| "call_args UserCode = None"

text \<open>Two ambient states that hold the same dialect registry and the same pass registry.\<close>

definition regs_equal :: "'o world \<Rightarrow> 'o world \<Rightarrow> bool" where
  "regs_equal w1 w2 =
     (dialect_registry w1 = dialect_registry w2 \<and> pass_registry w1 = pass_registry w2)"

section \<open>The registries as the specification describes them\<close>

text \<open>
  Modelled from the spec: the bodies of \<^verbatim>\<open>registerAllDialects\<close> and
  \<^verbatim>\<open>registerAllPasses\<close> (declared in \<^verbatim>\<open>mlir/InitAllDialects.h\<close> and
  \<^verbatim>\<open>mlir/InitAllPasses.h\<close>) are missing.  The specification describes each registry as
  a mapping from identifier to factory, populated by registration calls, and each entry
  point as a zero-argument function registering everything the linked framework version
  defines.  The catalogue of that version is a parameter.
\<close>

record catalogue =
  builtin_dialects :: "(dialect_id \<times> factory) list"
  builtin_passes :: "(pass_id \<times> factory) list"

fun register_each :: "(string \<times> factory) list \<Rightarrow> (string \<rightharpoonup> factory) \<Rightarrow> (string \<rightharpoonup> factory)" where
  "register_each [] reg = reg"
| "register_each ((k, f) # rest) reg = register_each rest (reg(k \<mapsto> f))"

text \<open>
  Modelled from the spec: \<^verbatim>\<open>registerAllDialects\<close>, "register all known dialects", whose
  body is missing.  It is a zero-argument entry point: there is no result for a call that
  supplies arguments.
\<close>

definition spec_registerAllDialects ::
  "catalogue \<Rightarrow> cvalue list \<Rightarrow> 'o world \<Rightarrow> 'o world option" where
  "spec_registerAllDialects cat args w =
     (if args = []
      then Some (w\<lparr>dialect_registry :=
                     register_each (builtin_dialects cat) (dialect_registry w)\<rparr>)
      else None)"

text \<open>
  Modelled from the spec: \<^verbatim>\<open>registerAllPasses\<close>, "register all passes", whose body is
  missing.  It is a zero-argument entry point: there is no result for a call that supplies
  arguments.
\<close>

definition spec_registerAllPasses ::
  "catalogue \<Rightarrow> cvalue list \<Rightarrow> 'o world \<Rightarrow> 'o world option" where
  "spec_registerAllPasses cat args w =
     (if args = []
      then Some (w\<lparr>pass_registry := register_each (builtin_passes cat) (pass_registry w)\<rparr>)
      else None)"

text \<open>
  Modelled from the spec: the linked framework version, whose two entry points are the ones
  above.
\<close>

definition spec_framework :: "catalogue \<Rightarrow> 'o framework" where
  "spec_framework cat =
     \<lparr>registerAllDialects = spec_registerAllDialects cat,
      registerAllPasses = spec_registerAllPasses cat\<rparr>"

text \<open>
  Modelled from the spec: the specification leaves open whether the registries accept a
  repeated registration ("not determined by this file alone").  This is the other
  registry it allows: one that rejects an identifier that is already registered, the
  framework aborting the process.  The bodies of the entry points are missing.
\<close>

fun register_each_strict ::
  "(string \<times> factory) list \<Rightarrow> (string \<rightharpoonup> factory) \<Rightarrow> (string \<rightharpoonup> factory) option" where
  "register_each_strict [] reg = Some reg"
| "register_each_strict ((k, f) # rest) reg =
     (case reg k of
        Some g \<Rightarrow> None
      | None \<Rightarrow> register_each_strict rest (reg(k \<mapsto> f)))"

definition strict_registerAllDialects ::
  "catalogue \<Rightarrow> cvalue list \<Rightarrow> 'o world \<Rightarrow> 'o world option" where
  "strict_registerAllDialects cat args w =
     (if args = []
      then (case register_each_strict (builtin_dialects cat) (dialect_registry w) of
              None \<Rightarrow> None
            | Some reg \<Rightarrow> Some (w\<lparr>dialect_registry := reg\<rparr>))
      else None)"

definition strict_registerAllPasses ::
  "catalogue \<Rightarrow> cvalue list \<Rightarrow> 'o world \<Rightarrow> 'o world option" where
  "strict_registerAllPasses cat args w =
     (if args = []
      then (case register_each_strict (builtin_passes cat) (pass_registry w) of
              None \<Rightarrow> None
            | Some reg \<Rightarrow> Some (w\<lparr>pass_registry := reg\<rparr>))
      else None)"

definition strict_framework :: "catalogue \<Rightarrow> 'o framework" where
  "strict_framework cat =
     \<lparr>registerAllDialects = strict_registerAllDialects cat,
      registerAllPasses = strict_registerAllPasses cat\<rparr>"

section \<open>Example data\<close>

text \<open>
  A small framework version, with one dialect and one pass, and the states of a process
  that links the file against it: before start-up the registries are empty, the
  initializer fills them, and a first step of ordinary code then empties them again.
\<close>

abbreviation example_catalogue :: catalogue where
  "example_catalogue \<equiv> \<lparr>builtin_dialects = [(''std'', 1)], builtin_passes = [(''cse'', 2)]\<rparr>"

abbreviation example_framework :: "'o framework" where
  "example_framework \<equiv> spec_framework example_catalogue"

abbreviation strict_example_framework :: "'o framework" where
  "strict_example_framework \<equiv> strict_framework example_catalogue"

abbreviation fresh_world :: "'o \<Rightarrow> 'o world" where
  "fresh_world x \<equiv> \<lparr>dialect_registry = Map.empty, pass_registry = Map.empty, other = x\<rparr>"

abbreviation populated_world :: "'o \<Rightarrow> 'o world" where
  "populated_world x \<equiv>
     \<lparr>dialect_registry = [''std'' \<mapsto> 1], pass_registry = [''cse'' \<mapsto> 2], other = x\<rparr>"

abbreviation example_start :: "unit process" where
  "example_start \<equiv> process_start (fresh_world ())"

abbreviation example_initialized :: "unit process" where
  "example_initialized \<equiv>
     \<lparr>pending_init = True, auto_init = True,
      trace = [Call RegisterAllDialects [], Call RegisterAllPasses [], WriteFlag True],
      globals = populated_world ()\<rparr>"

abbreviation example_after_startup :: "unit process" where
  "example_after_startup \<equiv>
     \<lparr>pending_init = False, auto_init = True,
      trace = [Call RegisterAllDialects [], Call RegisterAllPasses [], WriteFlag True],
      globals = populated_world ()\<rparr>"

abbreviation example_after_user_code :: "unit process" where
  "example_after_user_code \<equiv>
     \<lparr>pending_init = False, auto_init = True,
      trace = [Call RegisterAllDialects [], Call RegisterAllPasses [], WriteFlag True, UserCode],
      globals = fresh_world ()\<rparr>"

section \<open>Facts about the initializer\<close>


lemma static_init_Initialized:
  "static_init fw p = Initialized p' \<longleftrightarrow>
     (\<exists>w1 w2. registerAllDialects fw [] (globals p) = Some w1 \<and> registerAllPasses fw [] w1 = Some w2 \<and>
        p' = p\<lparr>auto_init := True,
               trace := trace p @ [Call RegisterAllDialects [], Call RegisterAllPasses [],
                                   WriteFlag True],
               globals := w2\<rparr>)"
  by (auto simp: static_init_def auto_init_lambda_def call_entry_def split: option.splits)

section \<open>Facts about executions\<close>

lemma map_eq_replicate: "(\<And>x. x \<in> set xs \<Longrightarrow> f x = c) \<Longrightarrow> map f xs = replicate (length xs) c"
  by (induction xs) auto

text \<open>Once the initializer has run, only ordinary code steps remain, and they leave the flag alone.\<close>

lemma step_after_init:
  assumes "\<not> pending_init p" and "step fw p q"
  shows "\<not> pending_init q \<and> auto_init q = auto_init p \<and> trace q = trace p @ [UserCode]"
  using assms(2,1) by (cases rule: step.cases) auto

text \<open>The only step a fresh process can take is start-up.\<close>

lemma step_from_start:
  assumes "step fw (process_start w0) q"
  shows "\<not> pending_init q \<and> auto_init q \<and>
         trace q = [Call RegisterAllDialects [], Call RegisterAllPasses [], WriteFlag True]"
  using assms
proof (cases rule: step.cases)
  case (startup p')
  then show ?thesis by (auto simp: static_init_Initialized process_start_def)
next
  case (user u)
  then show ?thesis by (simp add: process_start_def)
qed

lemma run_after_init:
  "\<not> pending_init p \<Longrightarrow> run_from fw p qs \<Longrightarrow> q \<in> set qs \<Longrightarrow>
     \<not> pending_init q \<and> auto_init q = auto_init p \<and> (\<exists>n. trace q = trace p @ replicate n UserCode)"
proof (induction qs arbitrary: p)
  case Nil
  then show ?case by simp
next
  case (Cons r rs)
  from Cons.prems have r: "step fw p r" and rs: "run_from fw r rs" by simp_all
  from step_after_init [OF Cons.prems(1) r] have
    r1: "\<not> pending_init r" and r2: "auto_init r = auto_init p" and
    r3: "trace r = trace p @ [UserCode]" by simp_all
  show ?case
  proof (cases "q = r")
    case True
    have "trace r = trace p @ replicate 1 UserCode" using r3 by simp
    then show ?thesis using True r1 r2 by blast
  next
    case False
    with Cons.prems have "q \<in> set rs" by simp
    from Cons.IH [OF r1 rs this] obtain n where
      "\<not> pending_init q" "auto_init q = auto_init r" "trace q = trace r @ replicate n UserCode"
      by blast
    then have "\<not> pending_init q \<and> auto_init q = auto_init p \<and>
               trace q = trace p @ replicate (Suc n) UserCode"
      using r2 r3 by (simp add: replicate_app_Cons_same)
    then show ?thesis by blast
  qed
qed

text \<open>
  Every state of an execution after its first has this shape: the initializer's three
  events, then ordinary code only.
\<close>

lemma run_from_start:
  assumes "run_from fw (process_start w0) qs" and "q \<in> set qs"
  shows "\<not> pending_init q \<and> auto_init q \<and>
         (\<exists>n. trace q = [Call RegisterAllDialects [], Call RegisterAllPasses [], WriteFlag True]
                          @ replicate n UserCode)"
proof (cases qs)
  case Nil
  with assms show ?thesis by simp
next
  case (Cons r rs)
  with assms have r: "step fw (process_start w0) r" and rs: "run_from fw r rs" by simp_all
  note r' = step_from_start [OF r]
  show ?thesis
  proof (cases "q = r")
    case True
    have "trace r = [Call RegisterAllDialects [], Call RegisterAllPasses [], WriteFlag True]
                      @ replicate 0 UserCode" using r' by simp
    then show ?thesis using True r' by blast
  next
    case False
    with assms Cons have "q \<in> set rs" by simp
    from run_after_init [OF _ rs this] r' show ?thesis by simp
  qed
qed

section \<open>Facts about the registries of the specification\<close>

lemma dom_register_each: "dom (register_each xs reg) = dom reg \<union> fst ` set xs"
proof (induction xs arbitrary: reg)
  case Nil
  show ?case by simp
next
  case (Cons x xs)
  obtain k f where x: "x = (k, f)" by (cases x)
  have "dom (register_each xs (reg(k \<mapsto> f))) = dom (reg(k \<mapsto> f)) \<union> fst ` set xs"
    by (rule Cons.IH)
  then show ?case using x by auto
qed

lemmas spec_eval = spec_framework_def spec_registerAllDialects_def spec_registerAllPasses_def

lemmas strict_eval =
  strict_framework_def strict_registerAllDialects_def strict_registerAllPasses_def

lemma spec_framework_other:
  "registerAllDialects (spec_framework cat) args w = Some w' \<Longrightarrow> other w' = other w"
  "registerAllPasses (spec_framework cat) args w = Some w' \<Longrightarrow> other w' = other w"
  by (auto simp: spec_eval split: if_splits)

lemma spec_framework_regs_equal:
  "regs_equal w1 w2 \<Longrightarrow>
     rel_option regs_equal (registerAllDialects (spec_framework cat) args w1)
       (registerAllDialects (spec_framework cat) args w2)"
  "regs_equal w1 w2 \<Longrightarrow>
     rel_option regs_equal (registerAllPasses (spec_framework cat) args w1)
       (registerAllPasses (spec_framework cat) args w2)"
  by (simp_all add: regs_equal_def spec_eval)

text \<open>
  A small framework version (one dialect, one pass) started on empty registries: the
  initializer completes, and the first ordinary step may then do anything to the ambient
  state (here it empties the registries again).
\<close>

lemma example_static_init:
  "static_init example_framework example_start = Initialized example_initialized"
  by (simp add: spec_eval static_init_def auto_init_lambda_def call_entry_def process_start_def)

lemma example_run:
  "run_from example_framework example_start
     [example_after_startup, example_after_user_code]"
proof -
  have s1: "step example_framework example_start example_after_startup"
    using step.startup [OF _ example_static_init] by (simp add: process_start_def)
  have s2: "step example_framework example_after_startup example_after_user_code"
    using step.user [of example_after_startup example_framework "\<lambda>w. fresh_world ()"]
    by simp
  show ?thesis using s1 s2 by simp
qed

section \<open>Population of the registries\<close>

text \<open>
  C1.  For a process that links the file, start-up is the one step a fresh process can
  take, it happens before any ordinary code, and after it the dialect registry holds every
  built-in dialect and the pass registry every built-in pass of the linked framework
  version (nothing else has been added: the domains are the initial ones plus the
  built-ins).  Both registries are then non-empty, the framework version defining at least
  one dialect and one pass.  The entry points are the ones described by the specification.
\<close>

theorem registries_populated_at_startup:
  assumes "builtin_dialects cat \<noteq> []" and "builtin_passes cat \<noteq> []"
  shows "\<exists>q. (\<forall>q'. step (spec_framework cat) (process_start w) q' \<longleftrightarrow> q' = q) \<and>
           UserCode \<notin> set (trace q) \<and>
           dom (dialect_registry (globals q))
             = dom (dialect_registry w) \<union> fst ` set (builtin_dialects cat) \<and>
           dom (pass_registry (globals q))
             = dom (pass_registry w) \<union> fst ` set (builtin_passes cat) \<and>
           dialect_registry (globals q) \<noteq> Map.empty \<and> pass_registry (globals q) \<noteq> Map.empty"
proof -
  define w2 where
    "w2 = w\<lparr>dialect_registry := register_each (builtin_dialects cat) (dialect_registry w),
             pass_registry := register_each (builtin_passes cat) (pass_registry w)\<rparr>"
  define q where
    "q = \<lparr>pending_init = False, auto_init = True,
          trace = [Call RegisterAllDialects [], Call RegisterAllPasses [], WriteFlag True],
          globals = w2\<rparr>"
  have init: "static_init (spec_framework cat) (process_start w) = Initialized p' \<longleftrightarrow>
                p' = q\<lparr>pending_init := True\<rparr>" for p'
    by (auto simp: static_init_Initialized spec_eval process_start_def q_def w2_def)
  have "step (spec_framework cat) (process_start w) q' \<longleftrightarrow> q' = q" for q'
  proof
    assume "step (spec_framework cat) (process_start w) q'"
    then show "q' = q"
    proof (cases rule: step.cases)
      case (startup p')
      then show ?thesis by (simp add: init q_def)
    next
      case (user u)
      then show ?thesis by (simp add: process_start_def)
    qed
  next
    assume "q' = q"
    moreover have "step (spec_framework cat) (process_start w)
                     ((q\<lparr>pending_init := True\<rparr>)\<lparr>pending_init := False\<rparr>)"
      by (rule step.startup) (simp add: process_start_def, simp add: init)
    ultimately show "step (spec_framework cat) (process_start w) q'" by (simp add: q_def)
  qed
  moreover have "UserCode \<notin> set (trace q)" by (simp add: q_def)
  moreover have d: "dom (dialect_registry (globals q))
                      = dom (dialect_registry w) \<union> fst ` set (builtin_dialects cat)"
    by (simp add: q_def w2_def dom_register_each)
  moreover have ps: "dom (pass_registry (globals q))
                      = dom (pass_registry w) \<union> fst ` set (builtin_passes cat)"
    by (simp add: q_def w2_def dom_register_each)
  moreover have "dialect_registry (globals q) \<noteq> Map.empty"
  proof
    assume "dialect_registry (globals q) = Map.empty"
    then have "dom (dialect_registry (globals q)) = {}" by simp
    with d assms(1) show False by (cases "builtin_dialects cat") auto
  qed
  moreover have "pass_registry (globals q) \<noteq> Map.empty"
  proof
    assume "pass_registry (globals q) = Map.empty"
    then have "dom (pass_registry (globals q)) = {}" by simp
    with ps assms(2) show False by (cases "builtin_passes cat") auto
  qed
  ultimately show ?thesis by blast
qed

theorem registries_populated_at_startup_witness:
  "builtin_dialects example_catalogue \<noteq> [] \<and> builtin_passes example_catalogue \<noteq> [] \<and>
   step example_framework example_start example_after_startup \<and>
   dom (dialect_registry (globals example_after_startup)) = {''std''} \<and>
   dom (pass_registry (globals example_after_startup)) = {''cse''}"
proof -
  have ne: "builtin_dialects example_catalogue \<noteq> []" "builtin_passes example_catalogue \<noteq> []"
    by simp_all
  from registries_populated_at_startup [OF ne, of "fresh_world ()"] obtain q where
    q: "\<And>q'. step example_framework example_start q' \<longleftrightarrow> q' = q" and
    d: "dom (dialect_registry (globals q)) = {''std''}" and
    ps: "dom (pass_registry (globals q)) = {''cse''}"
    by auto
  have s: "step example_framework example_start example_after_startup"
    using example_run by simp
  then have "q = example_after_startup" using q by simp
  with d ps s show ?thesis by simp
qed

section \<open>The call sequence\<close>

text \<open>
  C2.  The initializer performs a fixed sequence of registration calls: it invokes the
  register-all-dialects entry point first and, on the state that call leaves, the
  register-all-passes entry point second, each once, and nothing else.  What the closure
  does is exactly what these two invocations do, in this order: its history is the two
  calls, its final state is the state after passes-after-dialects, and it stops after the
  first call exactly when that call does not return.
\<close>

theorem auto_init_call_sequence:
  "auto_init_lambda fw tr w =
     (case registerAllDialects fw [] w of
        None \<Rightarrow> Aborted (tr @ [Call RegisterAllDialects []])
      | Some w1 \<Rightarrow>
          (case registerAllPasses fw [] w1 of
             None \<Rightarrow> Aborted (tr @ [Call RegisterAllDialects [], Call RegisterAllPasses []])
           | Some w2 \<Rightarrow>
               Returned True (tr @ [Call RegisterAllDialects [], Call RegisterAllPasses []]) w2))"
  by (simp add: auto_init_lambda_def call_entry_def split: option.split)

theorem auto_init_call_sequence_witness:
  "auto_init_lambda example_framework [UserCode] (fresh_world ()) =
     Returned True [UserCode, Call RegisterAllDialects [], Call RegisterAllPasses []]
       (populated_world ()) \<and>
   auto_init_lambda strict_example_framework [] (populated_world ()) =
     Aborted [Call RegisterAllDialects []]"
  using auto_init_call_sequence
          [where fw = example_framework and tr = "[UserCode]" and w = "fresh_world ()"]
        auto_init_call_sequence
          [where fw = strict_example_framework and tr = "[]" and w = "populated_world ()"]
  by (simp add: spec_eval strict_eval)

section \<open>Registration happens once\<close>

text \<open>
  C3.  In every execution of a process that links the file once, the state is
  Unregistered at the start and Registered in every later state: the change happens in
  the first step and is never undone.  In every state after the first, each entry point
  has been called by the file exactly once, so no step makes the registration calls a
  second time.
\<close>

theorem registration_happens_once:
  assumes "run_from fw (process_start w0) qs"
  shows "map reg_state_of (process_start w0 # qs)
           = Unregistered # replicate (length qs) Registered \<and>
         map (\<lambda>q. calls_to RegisterAllDialects (trace q)) (process_start w0 # qs)
           = 0 # replicate (length qs) 1 \<and>
         map (\<lambda>q. calls_to RegisterAllPasses (trace q)) (process_start w0 # qs)
           = 0 # replicate (length qs) 1"
proof -
  have a: "map reg_state_of qs = replicate (length qs) Registered"
    by (rule map_eq_replicate) (use run_from_start [OF assms] in \<open>simp add: reg_state_of_def\<close>)
  have b: "map (\<lambda>q. calls_to e (trace q)) qs = replicate (length qs) 1" for e
  proof (rule map_eq_replicate)
    fix q assume "q \<in> set qs"
    from run_from_start [OF assms this] show "calls_to e (trace q) = 1"
      by (cases e) (auto simp: calls_to_def)
  qed
  show ?thesis using a b by (simp add: process_start_def reg_state_of_def calls_to_def)
qed

theorem registration_happens_once_witness:
  "run_from example_framework example_start
     [example_after_startup, example_after_user_code] \<and>
   map reg_state_of [example_start, example_after_startup, example_after_user_code]
     = [Unregistered, Registered, Registered] \<and>
   map (\<lambda>q. calls_to RegisterAllDialects (trace q))
     [example_start, example_after_startup, example_after_user_code] = [0, 1, 1] \<and>
   map (\<lambda>q. calls_to RegisterAllPasses (trace q))
     [example_start, example_after_startup, example_after_user_code] = [0, 1, 1]"
  using registration_happens_once [OF example_run] example_run by simp

section \<open>The flag\<close>

text \<open>
  C4.  In every execution of a process that links the file once, the flag is \<open>False\<close> at
  the start and \<open>True\<close> in every later state, and the history of every later state holds
  exactly one access to the flag, the write of \<open>True\<close>; that write stands before the first
  step of ordinary code.  So the flag is written once, at start-up, and is neither read
  nor written afterwards.
\<close>

theorem auto_init_written_once:
  assumes "run_from fw (process_start w0) qs"
  shows "map auto_init (process_start w0 # qs) = False # replicate (length qs) True \<and>
         map (\<lambda>q. flag_accesses (trace q)) (process_start w0 # qs)
           = [] # replicate (length qs) [WriteFlag True] \<and>
         map (\<lambda>q. flag_accesses (takeWhile (\<lambda>e. e \<noteq> UserCode) (trace q))) qs
           = replicate (length qs) [WriteFlag True]"
proof -
  have a: "map auto_init qs = replicate (length qs) True"
    by (rule map_eq_replicate) (use run_from_start [OF assms] in simp)
  have b: "map (\<lambda>q. flag_accesses (trace q)) qs = replicate (length qs) [WriteFlag True]"
  proof (rule map_eq_replicate)
    fix q assume "q \<in> set qs"
    from run_from_start [OF assms this] show "flag_accesses (trace q) = [WriteFlag True]"
      by (auto simp: flag_accesses_def)
  qed
  have c: "map (\<lambda>q. flag_accesses (takeWhile (\<lambda>e. e \<noteq> UserCode) (trace q))) qs
             = replicate (length qs) [WriteFlag True]"
  proof (rule map_eq_replicate)
    fix q assume "q \<in> set qs"
    from run_from_start [OF assms this]
    show "flag_accesses (takeWhile (\<lambda>e. e \<noteq> UserCode) (trace q)) = [WriteFlag True]"
      by (auto simp: flag_accesses_def)
  qed
  show ?thesis using a b c by (simp add: process_start_def flag_accesses_def)
qed

theorem auto_init_written_once_witness:
  "run_from example_framework example_start
     [example_after_startup, example_after_user_code] \<and>
   map auto_init [example_start, example_after_startup, example_after_user_code]
     = [False, True, True] \<and>
   map (\<lambda>q. flag_accesses (trace q))
     [example_start, example_after_startup, example_after_user_code]
     = [[], [WriteFlag True], [WriteFlag True]] \<and>
   map (\<lambda>q. flag_accesses (takeWhile (\<lambda>e. e \<noteq> UserCode) (trace q)))
     [example_after_startup, example_after_user_code]
     = [[WriteFlag True], [WriteFlag True]]"
  using auto_init_written_once [OF example_run] example_run by simp

section \<open>Frame\<close>

text \<open>
  C5.  When the register-all-dialects and register-all-passes entry points leave
  everything but the registries alone, a completed static initialization changes nothing
  but the dialect registry, the pass registry and the flag (and the recorded history):
  the state after it is the state before it with those components replaced.
\<close>

theorem static_init_frame:
  assumes d: "\<And>w w'. registerAllDialects fw [] w = Some w' \<Longrightarrow> other w' = other w"
      and ps: "\<And>w w'. registerAllPasses fw [] w = Some w' \<Longrightarrow> other w' = other w"
      and init: "static_init fw p = Initialized p'"
  shows "p' = p\<lparr>auto_init := auto_init p', trace := trace p',
                globals := (globals p)\<lparr>dialect_registry := dialect_registry (globals p'),
                                         pass_registry := pass_registry (globals p')\<rparr>\<rparr>"
proof -
  from init obtain w1 w2 where
    w1: "registerAllDialects fw [] (globals p) = Some w1" and
    w2: "registerAllPasses fw [] w1 = Some w2" and
    p': "p' = p\<lparr>auto_init := True,
               trace := trace p @ [Call RegisterAllDialects [], Call RegisterAllPasses [],
                                   WriteFlag True],
               globals := w2\<rparr>"
    unfolding static_init_Initialized by blast
  have "other w2 = other (globals p)"
    using d [OF w1] ps [OF w2] by simp
  then have "w2 = (globals p)\<lparr>dialect_registry := dialect_registry w2,
                               pass_registry := pass_registry w2\<rparr>"
    by simp
  then show ?thesis using p' by simp
qed

theorem static_init_frame_witness:
  "static_init example_framework example_start = Initialized example_initialized \<and>
   example_initialized =
     example_start
       \<lparr>auto_init := True,
        trace := [Call RegisterAllDialects [], Call RegisterAllPasses [], WriteFlag True],
        globals := (fresh_world ())\<lparr>dialect_registry := [''std'' \<mapsto> 1],
                                     pass_registry := [''cse'' \<mapsto> 2]\<rparr>\<rparr>"
  using static_init_frame [OF spec_framework_other example_static_init] example_static_init
  by (simp add: process_start_def)

section \<open>No error is surfaced\<close>

text \<open>
  C6.  The closure validates nothing and reports nothing: whatever the two entry points
  do to the ambient state, if both return then the closure returns, and the value it
  returns is \<open>True\<close>; it never returns a failure value.  The only way for it not to
  return is that one of the entry points does not return.
\<close>

theorem auto_init_lambda_no_error:
  "(case auto_init_lambda fw tr w of
      Returned v tr' w' \<Rightarrow>
        v = True \<and> (\<exists>w1. registerAllDialects fw [] w = Some w1 \<and> registerAllPasses fw [] w1 = Some w')
    | Aborted tr' \<Rightarrow>
        registerAllDialects fw [] w = None \<or>
        (\<exists>w1. registerAllDialects fw [] w = Some w1 \<and> registerAllPasses fw [] w1 = None))"
  by (simp add: auto_init_lambda_def call_entry_def split: option.split)

theorem auto_init_lambda_no_error_witness:
  "auto_init_lambda example_framework [] (fresh_world ()) =
     Returned True [Call RegisterAllDialects [], Call RegisterAllPasses []] (populated_world ())"
  using auto_init_lambda_no_error
    [where fw = example_framework and tr = "[]" and w = "fresh_world ()"]
  by (simp add: spec_eval auto_init_lambda_def call_entry_def)

section \<open>Arguments of the calls\<close>

text \<open>
  C7.  Both registration entry points are invoked with zero arguments.  Whatever the
  linked entry points would do with other arguments, the closure's effect on the ambient
  state is that of the dialect entry point applied to the empty argument list, followed by
  the pass entry point applied to the empty argument list, and every call it records
  carries an empty argument list.
\<close>

theorem auto_init_calls_without_arguments:
  "(case auto_init_lambda fw tr w of
      Returned v tr' w' \<Rightarrow>
        (\<exists>w1. registerAllDialects fw [] w = Some w1 \<and> registerAllPasses fw [] w1 = Some w') \<and>
        map call_args (drop (length tr) tr') = [Some [], Some []]
    | Aborted tr' \<Rightarrow>
        (registerAllDialects fw [] w = None \<and>
           map call_args (drop (length tr) tr') = [Some []]) \<or>
        (\<exists>w1. registerAllDialects fw [] w = Some w1 \<and> registerAllPasses fw [] w1 = None \<and>
           map call_args (drop (length tr) tr') = [Some [], Some []]))"
  by (simp add: auto_init_lambda_def call_entry_def split: option.split)

theorem auto_init_calls_without_arguments_witness:
  "registerAllDialects example_framework [BoolV True] (fresh_world (7::nat)) = None \<and>
   registerAllPasses example_framework [IntV 0] (fresh_world (7::nat)) = None \<and>
   auto_init_lambda example_framework [] (fresh_world (7::nat)) =
     Returned True [Call RegisterAllDialects [], Call RegisterAllPasses []] (populated_world 7) \<and>
   map call_args (events_of (auto_init_lambda example_framework [] (fresh_world (7::nat))))
     = [Some [], Some []]"
  using auto_init_calls_without_arguments
    [where fw = example_framework and tr = "[]" and w = "fresh_world (7::nat)"]
  by (simp add: spec_eval auto_init_lambda_def call_entry_def)

section \<open>Running the sequence twice\<close>




section \<open>The value of the flag\<close>

text \<open>
  C9.  Whatever the two entry points do, a static initialization that completes leaves
  the flag \<open>True\<close>; and it completes whenever both entry points return.
\<close>

theorem auto_init_flag_true:
  "(case static_init fw p of
      Initialized p' \<Rightarrow> auto_init p' = True
    | Terminated tr \<Rightarrow>
        \<not> (\<exists>w1 w2. registerAllDialects fw [] (globals p) = Some w1 \<and>
                     registerAllPasses fw [] w1 = Some w2))"
  by (simp add: static_init_def auto_init_lambda_def call_entry_def split: option.split)

theorem auto_init_flag_true_witness:
  "static_init example_framework example_start = Initialized example_initialized \<and>
   auto_init example_initialized = True"
  using auto_init_flag_true [where fw = example_framework and p = example_start]
  by (simp add: spec_eval static_init_def auto_init_lambda_def call_entry_def process_start_def)

section \<open>Determinism\<close>

text \<open>
  C10.  With the same framework linked, and entry points whose effect on the registries
  depends on the registries only, two static initializations that start from equal
  dialect and pass registries end alike: both complete, with equal registries and equal
  flag, or neither does, having issued the same calls.  Nothing else of the start states
  (the rest of the ambient state, the earlier history) has any influence.
\<close>

theorem static_init_deterministic:
  assumes d: "\<And>w1 w2. regs_equal w1 w2 \<Longrightarrow>
                rel_option regs_equal (registerAllDialects fw [] w1) (registerAllDialects fw [] w2)"
      and ps: "\<And>w1 w2. regs_equal w1 w2 \<Longrightarrow>
                rel_option regs_equal (registerAllPasses fw [] w1) (registerAllPasses fw [] w2)"
      and eq: "regs_equal (globals p1) (globals p2)"
  shows "(case (static_init fw p1, static_init fw p2) of
            (Initialized q1, Initialized q2) \<Rightarrow>
               regs_equal (globals q1) (globals q2) \<and> auto_init q1 = auto_init q2
          | (Terminated t1, Terminated t2) \<Rightarrow>
               drop (length (trace p1)) t1 = drop (length (trace p2)) t2
          | (Initialized q1, Terminated t2) \<Rightarrow> False
          | (Terminated t1, Initialized q2) \<Rightarrow> False)"
proof (cases "registerAllDialects fw [] (globals p1)")
  case None
  with d [OF eq] have "registerAllDialects fw [] (globals p2) = None" by simp
  with None show ?thesis
    by (simp add: static_init_def auto_init_lambda_def call_entry_def)
next
  case (Some u1)
  with d [OF eq] obtain u2 where
    u2: "registerAllDialects fw [] (globals p2) = Some u2" and u: "regs_equal u1 u2"
    by (auto simp: option_rel_Some1)
  show ?thesis
  proof (cases "registerAllPasses fw [] u1")
    case None
    with ps [OF u] have "registerAllPasses fw [] u2 = None" by simp
    with None Some u2 show ?thesis
      by (simp add: static_init_def auto_init_lambda_def call_entry_def)
  next
    case (Some v1)
    with ps [OF u] obtain v2 where
      v2: "registerAllPasses fw [] u2 = Some v2" and v: "regs_equal v1 v2"
      by (auto simp: option_rel_Some1)
    from Some \<open>registerAllDialects fw [] (globals p1) = Some u1\<close> u2 v2 v show ?thesis
      by (simp add: static_init_def auto_init_lambda_def call_entry_def)
  qed
qed

theorem static_init_deterministic_witness:
  "regs_equal (fresh_world (0::nat)) (fresh_world 5) \<and>
   (case (static_init example_framework (process_start (fresh_world (0::nat))),
          static_init example_framework (process_start (fresh_world 5))) of
      (Initialized q1, Initialized q2) \<Rightarrow>
         regs_equal (globals q1) (globals q2) \<and> auto_init q1 = auto_init q2
    | (Terminated t1, Terminated t2) \<Rightarrow> False
    | (Initialized q1, Terminated t2) \<Rightarrow> False
    | (Terminated t1, Initialized q2) \<Rightarrow> False)"
proof -
  have eq: "regs_equal (globals (process_start (fresh_world (0::nat))))
              (globals (process_start (fresh_world 5)))"
    by (simp add: regs_equal_def process_start_def)
  from static_init_deterministic [OF spec_framework_regs_equal eq] show ?thesis
    by (simp add: spec_eval static_init_def auto_init_lambda_def call_entry_def process_start_def
          regs_equal_def)
qed

end
